theory Spec2Isabelle
  imports Main "HOL-Library.Word"
begin

section \<open>Python values\<close>

text \<open>
  The items that \<^verbatim>\<open>extruct\<close> returns are JSON-like Python values: \<^verbatim>\<open>None\<close>, booleans,
  integers, floats, strings, lists and dictionaries with string keys. A dictionary is an
  association list in insertion order; Python keeps its keys distinct, which is the
  predicate \<open>wf_value\<close> below. A string is a list of code points, here the ones below 256.
  A float is the bit pattern of the C double that CPython stores. Its decimal rendering
  (\<^verbatim>\<open>repr\<close>) is floating-point code that is not part of the program, so every function
  that renders values takes it as the parameter \<open>fr\<close>.
\<close>

datatype pyval =
    PNone
  | PBool bool
  | PInt int
  | PFloat "64 word"
  | PStr string
  | PList "pyval list"
  | PDict "(string \<times> pyval) list"

fun wf_value :: "pyval \<Rightarrow> bool"
and wf_items :: "(string \<times> pyval) list \<Rightarrow> bool"
and wf_elems :: "pyval list \<Rightarrow> bool"
where
  "wf_value (PDict kvs) = (distinct (map fst kvs) \<and> wf_items kvs)"
| "wf_value (PList vs) = wf_elems vs"
| "wf_value v = True"
| "wf_items [] = True"
| "wf_items ((k, v) # kvs) = (wf_value v \<and> wf_items kvs)"
| "wf_elems [] = True"
| "wf_elems (v # vs) = (wf_value v \<and> wf_elems vs)"

text \<open>Truthiness, as \<^verbatim>\<open>if t\<close>, \<^verbatim>\<open>a or b\<close> and \<^verbatim>\<open>not urls\<close> test it. The floats
  \<^verbatim>\<open>0.0\<close> and \<^verbatim>\<open>-0.0\<close> are the two patterns with all bits below the sign clear.\<close>

fun py_truthy :: "pyval \<Rightarrow> bool" where
  "py_truthy PNone = False"
| "py_truthy (PBool b) = b"
| "py_truthy (PInt i) = (i \<noteq> 0)"
| "py_truthy (PFloat x) = (x \<noteq> 0 \<and> x \<noteq> 0x8000000000000000)"
| "py_truthy (PStr s) = (s \<noteq> [])"
| "py_truthy (PList vs) = (vs \<noteq> [])"
| "py_truthy (PDict kvs) = (kvs \<noteq> [])"

definition py_or :: "pyval \<Rightarrow> pyval \<Rightarrow> pyval" where
  "py_or a b = (if py_truthy a then a else b)"

text \<open>\<^verbatim>\<open>d.get(k)\<close>: the value stored under the key, \<^verbatim>\<open>None\<close> when there is none.\<close>

definition dict_get :: "(string \<times> pyval) list \<Rightarrow> string \<Rightarrow> pyval" where
  "dict_get d k = (case map_of d k of None \<Rightarrow> PNone | Some v \<Rightarrow> v)"

subsection \<open>\<^verbatim>\<open>str\<close> and \<^verbatim>\<open>repr\<close>\<close>

text \<open>Decimal digits of a natural number, most significant first, as \<^verbatim>\<open>str(i)\<close> and
  the \<^verbatim>\<open>{i}\<close> of an f-string print an index. Integers are unbounded; the limit that
  newer CPython versions put on the number of digits of a conversion is not modelled.\<close>

fun digits :: "nat \<Rightarrow> string" where
  "digits n = (if n < 10 then [char_of (48 + n)] else digits (n div 10) @ [char_of (48 + n mod 10)])"

declare digits.simps [simp del]

definition str_int :: "int \<Rightarrow> string" where
  "str_int i = (if i < 0 then CHR ''-'' # digits (nat (- i)) else digits (nat i))"

text \<open>\<^verbatim>\<open>sep.join(xs)\<close>.\<close>

fun join :: "string \<Rightarrow> string list \<Rightarrow> string" where
  "join sep [] = []"
| "join sep [x] = x"
| "join sep (x # y # ys) = x @ sep @ join sep (y # ys)"

text \<open>\<^verbatim>\<open>repr\<close> of a string: single quotes unless the string has a single and no double
  quote; the quote and the backslash escaped, tab, newline and carriage return by letter,
  every other unprintable code point as \<^verbatim>\<open>\xhh\<close>. Below 256 the unprintable code points
  are the controls (0 to 31, 127 to 159), the no-break space 160 and the soft hyphen 173.\<close>

definition hexdigit :: "nat \<Rightarrow> char" where
  "hexdigit d = (if d < 10 then char_of (48 + d) else char_of (87 + d))"

definition isprintable :: "char \<Rightarrow> bool" where
  "isprintable c =
     (let n = (of_char c :: nat) in (32 \<le> n \<and> n < 127) \<or> (161 \<le> n \<and> n \<noteq> 173))"

definition repr_char :: "char \<Rightarrow> char \<Rightarrow> string" where
  "repr_char quote ch =
     (let n = (of_char ch :: nat) in
      if ch = quote \<or> ch = CHR 0x5C then [CHR 0x5C, ch]
      else if ch = CHR 0x09 then [CHR 0x5C, CHR ''t'']
      else if ch = CHR 0x0A then [CHR 0x5C, CHR ''n'']
      else if ch = CHR 0x0D then [CHR 0x5C, CHR ''r'']
      else if n < 32 \<or> n = 127 then [CHR 0x5C, CHR ''x'', hexdigit (n div 16), hexdigit (n mod 16)]
      else if n < 127 then [ch]
      else if isprintable ch then [ch]
      else [CHR 0x5C, CHR ''x'', hexdigit (n div 16), hexdigit (n mod 16)])"

definition repr_str :: "string \<Rightarrow> string" where
  "repr_str s =
     (let quote = (if CHR 0x27 \<in> set s \<and> CHR 0x22 \<notin> set s then CHR 0x22 else CHR 0x27)
      in quote # concat (map (repr_char quote) s) @ [quote])"

fun py_repr :: "(64 word \<Rightarrow> string) \<Rightarrow> pyval \<Rightarrow> string" where
  "py_repr fr PNone = ''None''"
| "py_repr fr (PBool b) = (if b then ''True'' else ''False'')"
| "py_repr fr (PInt i) = str_int i"
| "py_repr fr (PFloat x) = fr x"
| "py_repr fr (PStr s) = repr_str s"
| "py_repr fr (PList vs) = ''['' @ join '', '' (map (py_repr fr) vs) @ '']''"
| "py_repr fr (PDict kvs) =
     ''{'' @ join '', '' (map (\<lambda>(k, v). repr_str k @ '': '' @ py_repr fr v) kvs) @ ''}''"

text \<open>\<^verbatim>\<open>str(x)\<close> is the string itself for a string and \<^verbatim>\<open>repr(x)\<close> for every other
  value of the model.\<close>

fun py_str :: "(64 word \<Rightarrow> string) \<Rightarrow> pyval \<Rightarrow> string" where
  "py_str fr (PStr s) = s"
| "py_str fr v = py_repr fr v"

subsection \<open>Dictionary assignment, \<^verbatim>\<open>splitlines\<close> and \<^verbatim>\<open>strip\<close>\<close>

text \<open>\<^verbatim>\<open>out[k] = v\<close>: the entry of an existing key is replaced in its place, a new key
  goes to the end.\<close>

fun dict_set :: "(string \<times> 'a) list \<Rightarrow> string \<Rightarrow> 'a \<Rightarrow> (string \<times> 'a) list" where
  "dict_set [] k v = [(k, v)]"
| "dict_set ((k', v') # d) k v = (if k' = k then (k, v) # d else (k', v') # dict_set d k v)"

text \<open>
  \<^verbatim>\<open>str.splitlines()\<close> ends a line at each line boundary (below 256: line feed, vertical
  tab, form feed, carriage return, the separators 28, 29 and 30, and next line 133), takes
  a carriage return followed by a line feed as one boundary, keeps no line break in the
  lines, and yields no empty last line. \<open>lines_from\<close> reads the text once: \<open>cr\<close> says
  that the last character was a carriage return, \<open>acc\<close> is the line read so far.
\<close>

definition is_linebreak :: "char \<Rightarrow> bool" where
  "is_linebreak c =
     (let n = (of_char c :: nat) in (10 \<le> n \<and> n \<le> 13) \<or> (28 \<le> n \<and> n \<le> 30) \<or> n = 133)"

fun lines_from :: "bool \<Rightarrow> string \<Rightarrow> string \<Rightarrow> string list" where
  "lines_from cr acc [] = (if acc = [] then [] else [acc])"
| "lines_from cr acc (c # s) =
     (if cr \<and> c = CHR 0x0A then lines_from False acc s
      else if is_linebreak c then acc # lines_from (c = CHR 0x0D) [] s
      else lines_from False (acc @ [c]) s)"

definition splitlines :: "string \<Rightarrow> string list" where
  "splitlines s = lines_from False [] s"

text \<open>\<^verbatim>\<open>str.strip()\<close> removes the whitespace at both ends; below 256 the whitespace
  code points are 9 to 13, 28 to 32, 133 and 160.\<close>

definition is_space :: "char \<Rightarrow> bool" where
  "is_space c =
     (let n = (of_char c :: nat) in (9 \<le> n \<and> n \<le> 13) \<or> (28 \<le> n \<and> n \<le> 32) \<or> n = 133 \<or> n = 160)"

definition strip :: "string \<Rightarrow> string" where
  "strip s = rev (dropWhile is_space (rev (dropWhile is_space s)))"


section \<open>The collaborators\<close>

text \<open>
  The HTTP client, \<^verbatim>\<open>w3lib\<close>, \<^verbatim>\<open>extruct\<close>, \<^verbatim>\<open>json.dumps\<close> and the spreadsheet writer
  are libraries outside the program. The record \<open>env\<close> holds them as functions; each call
  that can raise returns \<open>Inl\<close> of the exception, of which the program reads only the
  text \<^verbatim>\<open>str(e)\<close>. The answer to a request is a function of the URL and the timeout: the
  model has no network state that one request could change for the next.
\<close>

datatype error = Error (str_error: string)

record response =
  status_code :: nat
  resp_text :: string
  resp_url :: string

text \<open>The rows. \<^verbatim>\<open>flatten_item\<close> appends dictionaries with the keys \<^verbatim>\<open>property\<close> and
  \<^verbatim>\<open>value\<close>; a row of the flat table has four more keys. Its \<^verbatim>\<open>item_index\<close> is the
  integer index of the item, or the empty string in an error row.\<close>

record frag =
  property :: string
  "value" :: string

record flat_row = frag +
  url :: string
  "syntax" :: string
  item_index :: pyval
  item_type :: string

record per_url_row =
  summary_url :: string
  structured_data_json :: string

record env =
  float_repr :: "64 word \<Rightarrow> string"
  requests_get :: "string \<Rightarrow> nat \<Rightarrow> error + response"
  raise_for_status :: "response \<Rightarrow> error option"
  get_base_url :: "string \<Rightarrow> string \<Rightarrow> error + string"
  extruct_extract :: "string \<Rightarrow> string \<Rightarrow> error + (string \<times> pyval) list"
  json_dumps :: "pyval \<Rightarrow> string"
  write_excel :: "per_url_row list \<Rightarrow> flat_row list \<Rightarrow> error + string"

section \<open>The program\<close>

text \<open>In every function \<open>E\<close> is the record of the libraries and \<open>u\<close> the source's
  \<^verbatim>\<open>url\<close>, a name that the rows need for their field. \<^verbatim>\<open>safe_json\<close> hands the object to
  \<^verbatim>\<open>json.dumps\<close> (compact separators, no ASCII escaping, \<^verbatim>\<open>str\<close> for what JSON cannot
  hold).\<close>

definition safe_json :: "env \<Rightarrow> pyval \<Rightarrow> string" where
  "safe_json E obj = json_dumps E obj"

definition fetch_html :: "env \<Rightarrow> string \<Rightarrow> nat \<Rightarrow> error + (string \<times> string)" where
  "fetch_html E u timeout =
     (case requests_get E u timeout of
        Inl e \<Rightarrow> Inl e
      | Inr r \<Rightarrow>
          (case raise_for_status E r of
             Some e \<Rightarrow> Inl e
           | None \<Rightarrow> Inr (resp_text r, resp_url r)))"

text \<open>\<^verbatim>\<open>normalize_items\<close>: the loop over the three syntax names, with the dictionary
  \<^verbatim>\<open>out\<close> passed along.\<close>

fun normalize_loop ::
  "(string \<times> pyval) list \<Rightarrow> string list \<Rightarrow> (string \<times> pyval list) list \<Rightarrow> (string \<times> pyval list) list"
where
  "normalize_loop extracted [] out = out"
| "normalize_loop extracted (k # ks) out =
     normalize_loop extracted ks
       (dict_set out k
          (case py_or (dict_get extracted k) (PList []) of
             PList vs \<Rightarrow> vs
           | v \<Rightarrow> [v]))"

definition normalize_items :: "(string \<times> pyval) list \<Rightarrow> (string \<times> pyval list) list" where
  "normalize_items extracted = normalize_loop extracted [''json-ld'', ''microdata'', ''rdfa''] []"

definition guess_item_type :: "(64 word \<Rightarrow> string) \<Rightarrow> pyval \<Rightarrow> string" where
  "guess_item_type fr item =
     (case item of
        PDict d \<Rightarrow>
          (let t = py_or (dict_get d ''@type'') (dict_get d ''type'') in
           case t of
             PList xs \<Rightarrow> join '','' (map (py_str fr) xs)
           | _ \<Rightarrow> if py_truthy t then py_str fr t else [])
      | _ \<Rightarrow> [])"

subsection \<open>The path flattener\<close>

text \<open>
  \<^verbatim>\<open>flatten_item(prefix, value, rows)\<close> appends to the list \<^verbatim>\<open>rows\<close> in place; the model
  takes the list and returns it updated. The two \<^verbatim>\<open>for\<close> loops are the functions
  \<open>flatten_dict\<close> (over \<^verbatim>\<open>value.items()\<close>) and \<open>flatten_list\<close> (over
  \<^verbatim>\<open>enumerate(value)\<close>, with the running index). Python's recursion limit is not
  modelled: the stack is unbounded.
\<close>

fun flatten_item :: "(64 word \<Rightarrow> string) \<Rightarrow> string \<Rightarrow> pyval \<Rightarrow> frag list \<Rightarrow> frag list"
and flatten_dict ::
  "(64 word \<Rightarrow> string) \<Rightarrow> string \<Rightarrow> (string \<times> pyval) list \<Rightarrow> frag list \<Rightarrow> frag list"
and flatten_list ::
  "(64 word \<Rightarrow> string) \<Rightarrow> string \<Rightarrow> nat \<Rightarrow> pyval list \<Rightarrow> frag list \<Rightarrow> frag list"
where
  "flatten_item fr prefix (PDict kvs) rows = flatten_dict fr prefix kvs rows"
| "flatten_item fr prefix (PList vs) rows = flatten_list fr prefix 0 vs rows"
| "flatten_item fr prefix v rows =
     rows @ [\<lparr>property = prefix, value = (if v = PNone then [] else py_str fr v)\<rparr>]"
| "flatten_dict fr prefix [] rows = rows"
| "flatten_dict fr prefix ((k, v) # kvs) rows =
     flatten_dict fr prefix kvs
       (flatten_item fr (if prefix \<noteq> [] then prefix @ ''.'' @ k else k) v rows)"
| "flatten_list fr prefix i [] rows = rows"
| "flatten_list fr prefix i (v # vs) rows =
     flatten_list fr prefix (Suc i) vs
       (flatten_item fr (prefix @ ''['' @ digits i @ '']'') v rows)"

text \<open>
  \<^verbatim>\<open>extract_structured_data\<close>. The loop over the items of one syntax is \<open>items_loop\<close>,
  with the index that \<^verbatim>\<open>enumerate\<close> counts; the loop over the syntaxes is
  \<open>syntax_loop\<close>. Both pass the list \<^verbatim>\<open>flat_rows\<close> along.
\<close>

record extraction =
  result_url :: string
  result_json :: string
  result_flat :: "flat_row list"

fun items_loop ::
  "(64 word \<Rightarrow> string) \<Rightarrow> string \<Rightarrow> string \<Rightarrow> nat \<Rightarrow> pyval list \<Rightarrow> flat_row list \<Rightarrow> flat_row list"
where
  "items_loop fr final_url syn idx [] flat_rows = flat_rows"
| "items_loop fr final_url syn idx (item # items) flat_rows =
     (let item_type' = guess_item_type fr item;
          tmp = flatten_item fr [] item []
      in items_loop fr final_url syn (Suc idx) items
           (flat_rows @
            map (\<lambda>t. \<lparr>property = property t, value = value t, url = final_url, syntax = syn,
                       item_index = PInt (int idx), item_type = item_type'\<rparr>) tmp))"

fun syntax_loop ::
  "(64 word \<Rightarrow> string) \<Rightarrow> string \<Rightarrow> (string \<times> pyval list) list \<Rightarrow> flat_row list \<Rightarrow> flat_row list"
where
  "syntax_loop fr final_url [] flat_rows = flat_rows"
| "syntax_loop fr final_url ((syn, items) # rest) flat_rows =
     syntax_loop fr final_url rest (items_loop fr final_url syn 0 items flat_rows)"

definition extract_structured_data :: "env \<Rightarrow> string \<Rightarrow> nat \<Rightarrow> error + extraction" where
  "extract_structured_data E u timeout =
     (case fetch_html E u timeout of
        Inl e \<Rightarrow> Inl e
      | Inr (html, final_url) \<Rightarrow>
          (case get_base_url E html final_url of
             Inl e \<Rightarrow> Inl e
           | Inr base_url \<Rightarrow>
               (case extruct_extract E html base_url of
                  Inl e \<Rightarrow> Inl e
                | Inr extracted \<Rightarrow>
                    (let items_by_syntax = normalize_items extracted;
                         flat_rows = syntax_loop (float_repr E) final_url items_by_syntax []
                     in Inr \<lparr>result_url = final_url,
                             result_json =
                               safe_json E (PDict (map (\<lambda>(k, vs). (k, PList vs)) items_by_syntax)),
                             result_flat = flat_rows\<rparr>))))"

text \<open>
  The script, once the button is pressed. The state of the batch loop is the two lists it
  appends to and, for the record, the URLs requested so far (each call of
  \<^verbatim>\<open>extract_structured_data\<close> starts with the request). \<^verbatim>\<open>except Exception\<close> is the
  \<open>Inl\<close> branch. The pause between requests and the progress bar are left out. \<open>run\<close>
  returns what the user gets to see: the error box, the preview of the first 50 rows, and
  the file behind the download button; an exception of the spreadsheet writer is not
  caught by the script.
\<close>

record loop_state =
  all_rows :: "flat_row list"
  per_url_rows :: "per_url_row list"
  requested :: "string list"

definition loop_body :: "env \<Rightarrow> nat \<Rightarrow> string \<Rightarrow> loop_state \<Rightarrow> loop_state" where
  "loop_body E timeout u s =
     (case extract_structured_data E u timeout of
        Inr result \<Rightarrow>
          s\<lparr>per_url_rows := per_url_rows s @
               [\<lparr>summary_url = result_url result, structured_data_json = result_json result\<rparr>],
            all_rows := all_rows s @ result_flat result,
            requested := requested s @ [u]\<rparr>
      | Inl e \<Rightarrow>
          s\<lparr>all_rows := all_rows s @
               [\<lparr>property = ''ERROR'', value = str_error e, url = u, syntax = [],
                 item_index = PStr [], item_type = []\<rparr>],
            requested := requested s @ [u]\<rparr>)"

definition initial_state :: loop_state where
  "initial_state = \<lparr>all_rows = [], per_url_rows = [], requested = []\<rparr>"

fun run_loop :: "env \<Rightarrow> nat \<Rightarrow> string list \<Rightarrow> loop_state \<Rightarrow> loop_state" where
  "run_loop E timeout [] s = s"
| "run_loop E timeout (u # urls) s = run_loop E timeout urls (loop_body E timeout u s)"

record outcome =
  shown_error :: "string option"
  fetched :: "string list"
  preview :: "flat_row list option"
  download :: "string option"
  uncaught :: "error option"

definition run :: "env \<Rightarrow> string \<Rightarrow> nat \<Rightarrow> outcome" where
  "run E urls_input timeout =
     (let urls = map strip (filter (\<lambda>u. strip u \<noteq> []) (splitlines urls_input)) in
      if urls = [] then
        \<lparr>shown_error = Some ''No URLs provided'', fetched = [], preview = None,
         download = None, uncaught = None\<rparr>
      else
        (let s = run_loop E timeout urls initial_state in
         case write_excel E (per_url_rows s) (all_rows s) of
           Inl e \<Rightarrow>
             \<lparr>shown_error = None, fetched = requested s, preview = Some (take 50 (all_rows s)),
              download = None, uncaught = Some e\<rparr>
         | Inr file \<Rightarrow>
             \<lparr>shown_error = None, fetched = requested s, preview = Some (take 50 (all_rows s)),
              download = Some file, uncaught = None\<rparr>))"

section \<open>Specification-side definitions\<close>

subsection \<open>Leaf positions\<close>

text \<open>
  The specification's view of an item: a leaf is a value that is neither a mapping nor a
  sequence, and its position is the list of keys and indices that lead to it from the
  root. \<open>leaves\<close> lists the leaves with their positions, mapping entries in insertion
  order and sequence elements in index order. \<open>extend_path\<close> is the specification's path
  rule for one step, \<open>render\<close> applies it along a position.
\<close>

datatype step = Key string | Idx nat

fun leaves :: "pyval \<Rightarrow> (step list \<times> pyval) list"
and leaves_dict :: "(string \<times> pyval) list \<Rightarrow> (step list \<times> pyval) list"
and leaves_list :: "nat \<Rightarrow> pyval list \<Rightarrow> (step list \<times> pyval) list"
where
  "leaves (PDict kvs) = leaves_dict kvs"
| "leaves (PList vs) = leaves_list 0 vs"
| "leaves v = [([], v)]"
| "leaves_dict [] = []"
| "leaves_dict ((k, v) # kvs) = map (\<lambda>(p, s). (Key k # p, s)) (leaves v) @ leaves_dict kvs"
| "leaves_list i [] = []"
| "leaves_list i (v # vs) = map (\<lambda>(p, s). (Idx i # p, s)) (leaves v) @ leaves_list (Suc i) vs"

fun extend_path :: "string \<Rightarrow> step \<Rightarrow> string" where
  "extend_path parent (Key k) = (if parent \<noteq> [] then parent @ ''.'' @ k else k)"
| "extend_path parent (Idx i) = parent @ ''['' @ digits i @ '']''"

definition render :: "string \<Rightarrow> step list \<Rightarrow> string" where
  "render prefix p = foldl extend_path prefix p"

definition scalar_str :: "(64 word \<Rightarrow> string) \<Rightarrow> pyval \<Rightarrow> string" where
  "scalar_str fr s = (if s = PNone then [] else py_str fr s)"

definition leaf_row :: "(64 word \<Rightarrow> string) \<Rightarrow> string \<Rightarrow> step list \<times> pyval \<Rightarrow> frag" where
  "leaf_row fr prefix l = \<lparr>property = render prefix (fst l), value = scalar_str fr (snd l)\<rparr>"

definition is_scalar :: "pyval \<Rightarrow> bool" where
  "is_scalar v = (case v of PList vs \<Rightarrow> False | PDict kvs \<Rightarrow> False | _ \<Rightarrow> True)"

subsection \<open>Keys that the path syntax can hold\<close>

text \<open>
  A path joins keys with a dot and writes an index in brackets, without escaping. A key is
  \<open>plain\<close> when it is not empty and has neither a dot nor an opening bracket;
  \<open>plain_keys\<close> says so of every key of a value, at every depth. \<open>seg\<close> is what one
  step adds to a non-empty path, \<open>tail_str\<close> what a position adds, and \<open>undigits\<close>
  reads a decimal numeral back.
\<close>

definition plain_key :: "string \<Rightarrow> bool" where
  "plain_key k = (k \<noteq> [] \<and> CHR ''.'' \<notin> set k \<and> CHR ''['' \<notin> set k)"

fun plain_keys :: "pyval \<Rightarrow> bool"
and plain_items :: "(string \<times> pyval) list \<Rightarrow> bool"
and plain_elems :: "pyval list \<Rightarrow> bool"
where
  "plain_keys (PDict kvs) = plain_items kvs"
| "plain_keys (PList vs) = plain_elems vs"
| "plain_keys v = True"
| "plain_items [] = True"
| "plain_items ((k, v) # kvs) = (plain_key k \<and> plain_keys v \<and> plain_items kvs)"
| "plain_elems [] = True"
| "plain_elems (v # vs) = (plain_keys v \<and> plain_elems vs)"

fun plain_step :: "step \<Rightarrow> bool" where
  "plain_step (Key k) = plain_key k"
| "plain_step (Idx i) = True"

fun seg :: "step \<Rightarrow> string" where
  "seg (Key k) = ''.'' @ k"
| "seg (Idx i) = ''['' @ digits i @ '']''"

definition undigits :: "string \<Rightarrow> nat" where
  "undigits s = foldl (\<lambda>a c. 10 * a + (of_char c - 48)) 0 s"

definition tail_str :: "step list \<Rightarrow> string" where
  "tail_str p = concat (map seg p)"

text \<open>The path of a position from an empty prefix: the first key stands without a dot.\<close>

fun root_str :: "step list \<Rightarrow> string" where
  "root_str [] = []"
| "root_str (Key k # p) = k @ tail_str p"
| "root_str (Idx i # p) = seg (Idx i) @ tail_str p"

subsection \<open>The type label and the normalized lists\<close>

text \<open>
  The specification's reading of the classifier and the normalizer. \<open>truthy_field\<close> is
  the value of a field that is present and truthy; \<open>chosen_type\<close> takes \<^verbatim>\<open>@type\<close> first
  and \<^verbatim>\<open>type\<close> otherwise; \<open>type_label\<close> joins a list with commas and takes the string of
  any other value. \<open>expected_items\<close> is the list that the normalizer owes for a raw
  value, which may be missing.
\<close>

definition truthy_field :: "(string \<times> pyval) list \<Rightarrow> string \<Rightarrow> pyval option" where
  "truthy_field d k =
     (case map_of d k of None \<Rightarrow> None | Some v \<Rightarrow> if py_truthy v then Some v else None)"

definition chosen_type :: "(string \<times> pyval) list \<Rightarrow> pyval option" where
  "chosen_type d =
     (case truthy_field d ''@type'' of Some t \<Rightarrow> Some t | None \<Rightarrow> truthy_field d ''type'')"

definition type_label :: "(64 word \<Rightarrow> string) \<Rightarrow> pyval option \<Rightarrow> string" where
  "type_label fr c =
     (case c of
        None \<Rightarrow> []
      | Some (PList xs) \<Rightarrow> join '','' (map (py_str fr) xs)
      | Some t \<Rightarrow> py_str fr t)"

definition expected_items :: "pyval option \<Rightarrow> pyval list" where
  "expected_items raw =
     (case raw of
        None \<Rightarrow> []
      | Some (PList vs) \<Rightarrow> vs
      | Some v \<Rightarrow> if py_truthy v then [v] else [])"

subsection \<open>The batch\<close>

text \<open>
  What one URL adds to the two tables: its flat rows, or the one error row, and its
  summary, or none. \<open>example_env\<close> is an environment for the examples: the URL
  \<^verbatim>\<open>bad\<close> times out, every other page holds one JSON-LD item of type \<^verbatim>\<open>X\<close>.
\<close>

definition error_row :: "string \<Rightarrow> error \<Rightarrow> flat_row" where
  "error_row u e =
     \<lparr>property = ''ERROR'', value = str_error e, url = u, syntax = [],
      item_index = PStr [], item_type = []\<rparr>"

definition rows_of :: "env \<Rightarrow> nat \<Rightarrow> string \<Rightarrow> flat_row list" where
  "rows_of E timeout u =
     (case extract_structured_data E u timeout of
        Inr result \<Rightarrow> result_flat result
      | Inl e \<Rightarrow> [error_row u e])"

definition summaries_of :: "env \<Rightarrow> nat \<Rightarrow> string \<Rightarrow> per_url_row list" where
  "summaries_of E timeout u =
     (case extract_structured_data E u timeout of
        Inr result \<Rightarrow>
          [\<lparr>summary_url = result_url result, structured_data_json = result_json result\<rparr>]
      | Inl e \<Rightarrow> [])"

definition example_env :: env where
  "example_env =
     \<lparr>float_repr = (\<lambda>x. ''0.5''),
      requests_get = (\<lambda>u t. if u = ''bad'' then Inl (Error ''timed out'')
                             else Inr \<lparr>status_code = 200, resp_text = ''<html>'', resp_url = u\<rparr>),
      raise_for_status = (\<lambda>r. if 400 \<le> status_code r then Some (Error ''HTTP error'') else None),
      get_base_url = (\<lambda>html u. Inr u),
      extruct_extract = (\<lambda>html base. Inr [(''json-ld'', PDict [(''@type'', PStr ''X'')])]),
      json_dumps = (\<lambda>v. ''{}''),
      write_excel = (\<lambda>summaries rows. Inr ''xlsx'')\<rparr>"

section \<open>Properties of the flattener\<close>

subsection \<open>The accumulator is only appended to\<close>

lemma flatten_append:
  "flatten_item fr prefix v rows = rows @ flatten_item fr prefix v []"
  "flatten_dict fr prefix kvs rows = rows @ flatten_dict fr prefix kvs []"
  "flatten_list fr prefix i vs rows = rows @ flatten_list fr prefix i vs []"
proof (induction v and kvs and vs arbitrary: prefix rows and prefix rows and prefix i rows
    rule: wf_value_wf_items_wf_elems.induct)
  case (5 k v kvs)
  let ?p = "if prefix \<noteq> [] then prefix @ ''.'' @ k else k"
  have "flatten_dict fr prefix ((k, v) # kvs) rows
      = flatten_item fr ?p v rows @ flatten_dict fr prefix kvs []"
    using "5.IH"(2) [of prefix "flatten_item fr ?p v rows"] by simp
  also have "\<dots> = rows @ flatten_item fr ?p v [] @ flatten_dict fr prefix kvs []"
    using "5.IH"(1) [of ?p rows] by simp
  also have "flatten_item fr ?p v [] @ flatten_dict fr prefix kvs []
      = flatten_dict fr prefix ((k, v) # kvs) []"
    using "5.IH"(2) [of prefix "flatten_item fr ?p v []"] by simp
  finally show ?case .
next
  case (7 v vs)
  let ?p = "prefix @ ''['' @ digits i @ '']''"
  have "flatten_list fr prefix i (v # vs) rows
      = flatten_item fr ?p v rows @ flatten_list fr prefix (Suc i) vs []"
    using "7.IH"(2) [of prefix "Suc i" "flatten_item fr ?p v rows"] by simp
  also have "\<dots> = rows @ flatten_item fr ?p v [] @ flatten_list fr prefix (Suc i) vs []"
    using "7.IH"(1) [of ?p rows] by simp
  also have "flatten_item fr ?p v [] @ flatten_list fr prefix (Suc i) vs []
      = flatten_list fr prefix i (v # vs) []"
    using "7.IH"(2) [of prefix "Suc i" "flatten_item fr ?p v []"] by simp
  finally show ?case .
next
  case (1 kvs)
  show ?case using "1.IH" [of prefix rows] by simp
next
  case (2 vs)
  show ?case using "2.IH" [of prefix 0 rows] by simp
qed simp_all

subsection \<open>The rows are the leaves\<close>

lemma render_Cons: "render prefix (s # p) = render (extend_path prefix s) p"
  by (simp add: render_def)

lemma leaf_row_Cons: "leaf_row fr prefix (s # p, x) = leaf_row fr (extend_path prefix s) (p, x)"
  by (simp add: leaf_row_def render_Cons)

lemma flatten_leaves:
  "flatten_item fr prefix v rows = rows @ map (leaf_row fr prefix) (leaves v)"
  "flatten_dict fr prefix kvs rows = rows @ map (leaf_row fr prefix) (leaves_dict kvs)"
  "flatten_list fr prefix i vs rows = rows @ map (leaf_row fr prefix) (leaves_list i vs)"
proof (induction v and kvs and vs arbitrary: prefix rows and prefix rows and prefix i rows
    rule: wf_value_wf_items_wf_elems.induct)
  case (5 k v kvs)
  have "map (leaf_row fr prefix) (map (\<lambda>(p, s). (Key k # p, s)) (leaves v))
      = map (leaf_row fr (extend_path prefix (Key k))) (leaves v)"
    by (simp add: leaf_row_Cons case_prod_unfold comp_def del: extend_path.simps)
  then show ?case
    using "5.IH" by simp
next
  case (7 v vs)
  have "map (leaf_row fr prefix) (map (\<lambda>(p, s). (Idx i # p, s)) (leaves v))
      = map (leaf_row fr (extend_path prefix (Idx i))) (leaves v)"
    by (simp add: leaf_row_Cons case_prod_unfold comp_def del: extend_path.simps)
  then show ?case
    using "7.IH" by simp
qed (simp_all add: leaf_row_def render_def scalar_str_def)

lemma leaves_scalar:
  "list_all (\<lambda>l. is_scalar (snd l)) (leaves v)"
  "list_all (\<lambda>l. is_scalar (snd l)) (leaves_dict kvs)"
  "list_all (\<lambda>l. is_scalar (snd l)) (leaves_list i vs)"
  by (induction v and kvs and i vs rule: leaves_leaves_dict_leaves_list.induct)
     (auto simp add: is_scalar_def list_all_iff)

lemma digits_small: "n < 10 \<Longrightarrow> digits n = [char_of (48 + n)]"
  by (simp add: digits.simps)

text \<open>
  C10: for every prefix, value and accumulator, \<open>flatten_item\<close> only appends: the
  accumulator it returns is the old accumulator, unchanged and in order, followed by the
  fragments of the value, which are the rows of its leaves, one per leaf and in their
  order, each with the leaf's path under the prefix and the leaf's string. They are also
  what the call produces on an empty accumulator.
\<close>

theorem flatten_item_only_appends:
  "flatten_item fr prefix v rows = rows @ map (leaf_row fr prefix) (leaves v)
   \<and> take (length rows) (flatten_item fr prefix v rows) = rows
   \<and> drop (length rows) (flatten_item fr prefix v rows) = map (leaf_row fr prefix) (leaves v)
   \<and> flatten_item fr prefix v rows = rows @ flatten_item fr prefix v []"
proof -
  have eq: "flatten_item fr prefix v rows = rows @ map (leaf_row fr prefix) (leaves v)"
    by (rule flatten_leaves(1))
  have t: "take (length rows) (rows @ map (leaf_row fr prefix) (leaves v)) = rows"
    by simp
  have d: "drop (length rows) (rows @ map (leaf_row fr prefix) (leaves v))
      = map (leaf_row fr prefix) (leaves v)"
    by simp
  have e: "flatten_item fr prefix v rows = rows @ flatten_item fr prefix v []"
    by (rule flatten_append(1))
  show ?thesis
    using t d e by (simp only: eq simp_thms)
qed

theorem flatten_item_only_appends_witness:
  "flatten_item (\<lambda>x. ''0.5'') ''offers'' (PList [PStr ''a'', PDict [(''price'', PFloat 1)]])
     [\<lparr>property = ''name'', value = ''n''\<rparr>]
   = [\<lparr>property = ''name'', value = ''n''\<rparr>,
      \<lparr>property = ''offers[0]'', value = ''a''\<rparr>,
      \<lparr>property = ''offers[1].price'', value = ''0.5''\<rparr>]
   \<and> map (leaf_row (\<lambda>x. ''0.5'') ''offers'')
         (leaves (PList [PStr ''a'', PDict [(''price'', PFloat 1)]]))
     = [\<lparr>property = ''offers[0]'', value = ''a''\<rparr>,
        \<lparr>property = ''offers[1].price'', value = ''0.5''\<rparr>]
   \<and> take (length [\<lparr>property = ''name'', value = ''n''\<rparr>])
       (flatten_item (\<lambda>x. ''0.5'') ''offers'' (PList [PStr ''a'', PDict [(''price'', PFloat 1)]])
         [\<lparr>property = ''name'', value = ''n''\<rparr>])
     = [\<lparr>property = ''name'', value = ''n''\<rparr>]"
proof -
  have l: "map (leaf_row (\<lambda>x. ''0.5'') ''offers'')
         (leaves (PList [PStr ''a'', PDict [(''price'', PFloat 1)]]))
     = [\<lparr>property = ''offers[0]'', value = ''a''\<rparr>,
        \<lparr>property = ''offers[1].price'', value = ''0.5''\<rparr>]"
    by code_simp
  show ?thesis
    using flatten_item_only_appends [of "\<lambda>x. ''0.5''" "''offers''"
        "PList [PStr ''a'', PDict [(''price'', PFloat 1)]]" "[\<lparr>property = ''name'', value = ''n''\<rparr>]"]
    by (simp only: l) simp
qed

text \<open>
  C1: for every value and prefix, \<open>flatten_item\<close> appends exactly one row per leaf scalar
  of the value, in the order of the leaves and with the leaf's string as its value; the
  leaves are scalars, so no row stands for a mapping or a sequence; and an empty mapping
  or an empty sequence, at the root or nested, adds no row.
\<close>

theorem flatten_item_one_row_per_leaf:
  "length (flatten_item fr prefix v rows) = length rows + length (leaves v)
   \<and> map value (drop (length rows) (flatten_item fr prefix v rows))
       = map (\<lambda>l. scalar_str fr (snd l)) (leaves v)
   \<and> list_all (\<lambda>l. is_scalar (snd l)) (leaves v)
   \<and> flatten_item fr prefix (PList []) rows = rows
   \<and> flatten_item fr prefix (PDict []) rows = rows
   \<and> flatten_item fr prefix
        (PDict [(''a'', PList []), (''b'', PDict [(''c'', PDict [])]),
                (''d'', PList [PList [], PDict []])]) rows = rows"
  by (simp add: flatten_leaves(1) leaves_scalar(1) leaf_row_def comp_def)

theorem flatten_item_one_row_per_leaf_witness:
  "length (flatten_item (\<lambda>x. ''0.5'') []
      (PDict [(''n'', PStr ''x''), (''e'', PList []), (''o'', PList [PInt 3, PNone])]) [])
     = length ([] :: frag list)
       + length (leaves (PDict [(''n'', PStr ''x''), (''e'', PList []), (''o'', PList [PInt 3, PNone])]))
   \<and> length (leaves (PDict [(''n'', PStr ''x''), (''e'', PList []), (''o'', PList [PInt 3, PNone])])) = 3"
  using flatten_item_one_row_per_leaf [of "\<lambda>x. ''0.5''" "[]"
      "PDict [(''n'', PStr ''x''), (''e'', PList []), (''o'', PList [PInt 3, PNone])]" "[]"]
  by simp

text \<open>
  C2: for every value, the rows that \<open>flatten_item\<close> appends are the leaves of the value
  in order (mapping entries in insertion order, sequence elements by index), each with
  the path that the rule \<open>parent.key\<close> (\<open>key\<close> alone under an empty parent) and
  \<open>parent[i]\<close> gives along the leaf's position; so \<^verbatim>\<open>{"a": {"b": [1, 2]}}\<close> with an empty
  prefix gives \<^verbatim>\<open>a.b[0]\<close> with value 1 and \<^verbatim>\<open>a.b[1]\<close> with value 2, in that order.
\<close>

theorem flatten_item_paths:
  "flatten_item fr prefix v rows = rows @ map (leaf_row fr prefix) (leaves v)
   \<and> flatten_item fr [] (PDict [(''a'', PDict [(''b'', PList [PInt 1, PInt 2])])]) []
       = [\<lparr>property = ''a.b[0]'', value = ''1''\<rparr>, \<lparr>property = ''a.b[1]'', value = ''2''\<rparr>]"
proof (rule conjI)
  show "flatten_item fr prefix v rows = rows @ map (leaf_row fr prefix) (leaves v)"
    by (rule flatten_leaves(1))
  show "flatten_item fr [] (PDict [(''a'', PDict [(''b'', PList [PInt 1, PInt 2])])]) []
       = [\<lparr>property = ''a.b[0]'', value = ''1''\<rparr>, \<lparr>property = ''a.b[1]'', value = ''2''\<rparr>]"
    by code_simp
qed

theorem flatten_item_paths_witness:
  "flatten_item (\<lambda>x. ''0.5'') [] (PDict [(''offers'', PList [PDict [(''price'', PStr ''9'')]])]) []
     = [] @ map (leaf_row (\<lambda>x. ''0.5'') [])
              (leaves (PDict [(''offers'', PList [PDict [(''price'', PStr ''9'')]])]))
   \<and> map (leaf_row (\<lambda>x. ''0.5'') [])
         (leaves (PDict [(''offers'', PList [PDict [(''price'', PStr ''9'')]])]))
     = [\<lparr>property = ''offers[0].price'', value = ''9''\<rparr>]"
  using flatten_item_paths [of "\<lambda>x. ''0.5''" "[]"
      "PDict [(''offers'', PList [PDict [(''price'', PStr ''9'')]])]" "[]"]
  by (simp add: leaf_row_def render_def scalar_str_def digits_small)

text \<open>
  C7: a scalar at the root, flattened with the empty prefix, gives exactly one row with the
  empty path and the scalar's string: the string itself, the decimal numeral of an
  integer, \<^verbatim>\<open>True\<close> or \<^verbatim>\<open>False\<close>, the rendering of a float; \<^verbatim>\<open>None\<close> gives the empty
  string, and \<^verbatim>\<open>{"x": None}\<close> gives the one row with path \<^verbatim>\<open>x\<close> and empty value.
\<close>

theorem flatten_item_scalar:
  "flatten_item fr [] (PStr s) [] = [\<lparr>property = [], value = s\<rparr>]
   \<and> flatten_item fr [] (PInt i) [] = [\<lparr>property = [], value = str_int i\<rparr>]
   \<and> flatten_item fr [] (PBool b) []
       = [\<lparr>property = [], value = (if b then ''True'' else ''False'')\<rparr>]
   \<and> flatten_item fr [] (PFloat x) [] = [\<lparr>property = [], value = fr x\<rparr>]
   \<and> flatten_item fr [] PNone [] = [\<lparr>property = [], value = []\<rparr>]
   \<and> flatten_item fr [] (PStr ''hello'') [] = [\<lparr>property = [], value = ''hello''\<rparr>]
   \<and> flatten_item fr [] (PDict [(''x'', PNone)]) [] = [\<lparr>property = ''x'', value = []\<rparr>]"
  by simp

theorem flatten_item_scalar_witness:
  "flatten_item (\<lambda>x. ''0.5'') [] (PInt (- 42)) [] = [\<lparr>property = [], value = ''-42''\<rparr>]
   \<and> flatten_item (\<lambda>x. ''0.5'') [] (PBool True) [] = [\<lparr>property = [], value = ''True''\<rparr>]
   \<and> flatten_item (\<lambda>x. ''0.5'') [] (PFloat 7) [] = [\<lparr>property = [], value = ''0.5''\<rparr>]"
proof -
  have "str_int (- 42) = ''-42''" by code_simp
  then show ?thesis
    using flatten_item_scalar [of "\<lambda>x. ''0.5''" "[]" "- 42" True 7] by simp
qed

subsection \<open>Paths and positions\<close>

lemma undigits_digits: "undigits (digits n) = n"
proof (induction n rule: digits.induct)
  case (1 n)
  show ?case
  proof (cases "n < 10")
    case True
    then show ?thesis by (simp add: digits.simps [of n] undigits_def)
  next
    case False
    have "n mod 10 < 10" by simp
    then have m: "(48 + n mod 10) mod 256 = 48 + n mod 10" by simp
    have "undigits (digits n) = 10 * undigits (digits (n div 10)) + n mod 10"
      using False by (simp add: digits.simps [of n] undigits_def m)
    then show ?thesis using "1.IH" False by simp
  qed
qed

lemma digits_inj: "digits i = digits j \<Longrightarrow> i = j"
  by (metis undigits_digits)

lemma digits_range: "c \<in> set (digits n) \<Longrightarrow> 48 \<le> (of_char c :: nat) \<and> (of_char c :: nat) \<le> 57"
proof (induction n rule: digits.induct)
  case (1 n)
  show ?case
  proof (cases "n < 10")
    case True
    then show ?thesis using "1.prems" by (auto simp add: digits.simps [of n])
  next
    case False
    have "n mod 10 < 10" by simp
    then have m: "(48 + n mod 10) mod 256 = 48 + n mod 10" by simp
    show ?thesis using False "1.prems" "1.IH" m by (auto simp add: digits.simps [of n])
  qed
qed

lemma digits_no_bracket: "CHR '']'' \<notin> set (digits n)"
  using digits_range [of "CHR '']''" n] by auto

lemma digits_nonempty: "digits n \<noteq> []"
  by (simp add: digits.simps [of n])

lemma split_at_stop:
  assumes a: "\<forall>c\<in>set a. P c" and b: "\<forall>c\<in>set b. P c"
    and x: "x = [] \<or> \<not> P (hd x)" and y: "y = [] \<or> \<not> P (hd y)"
    and eq: "a @ x = b @ y"
  shows "a = b \<and> x = y"
proof -
  have tx: "takeWhile P x = []" using x by (cases x) auto
  have ty: "takeWhile P y = []" using y by (cases y) auto
  have "takeWhile P (a @ x) = a" using a tx by (simp add: takeWhile_append2)
  moreover have "takeWhile P (b @ y) = b" using b ty by (simp add: takeWhile_append2)
  ultimately have "a = b" using eq by simp
  with eq show ?thesis by simp
qed

lemma seg_nonempty: "seg s \<noteq> []"
  by (cases s) simp_all

lemma tail_str_start:
  "tail_str p = [] \<or> hd (tail_str p) = CHR ''.'' \<or> hd (tail_str p) = CHR ''[''"
proof (cases p)
  case Nil
  then show ?thesis by (simp add: tail_str_def)
next
  case (Cons s q)
  then show ?thesis by (cases s) (simp_all add: tail_str_def)
qed

lemma tail_str_Cons: "tail_str (s # p) = seg s @ tail_str p"
  by (simp add: tail_str_def)

lemma key_tail_inj:
  assumes "plain_key k1" and "plain_key k2" and "k1 @ tail_str p = k2 @ tail_str q"
  shows "k1 = k2 \<and> tail_str p = tail_str q"
proof (rule split_at_stop [where P = "\<lambda>c. c \<noteq> CHR ''.'' \<and> c \<noteq> CHR ''[''"])
  show "\<forall>c\<in>set k1. c \<noteq> CHR ''.'' \<and> c \<noteq> CHR ''[''"
    using assms(1) by (auto simp add: plain_key_def)
  show "\<forall>c\<in>set k2. c \<noteq> CHR ''.'' \<and> c \<noteq> CHR ''[''"
    using assms(2) by (auto simp add: plain_key_def)
  show "tail_str p = [] \<or> \<not> (hd (tail_str p) \<noteq> CHR ''.'' \<and> hd (tail_str p) \<noteq> CHR ''['')"
    using tail_str_start [of p] by auto
  show "tail_str q = [] \<or> \<not> (hd (tail_str q) \<noteq> CHR ''.'' \<and> hd (tail_str q) \<noteq> CHR ''['')"
    using tail_str_start [of q] by auto
  show "k1 @ tail_str p = k2 @ tail_str q" by (rule assms(3))
qed

lemma idx_tail_inj:
  assumes "digits i @ '']'' @ x = digits j @ '']'' @ y"
  shows "i = j \<and> x = y"
proof -
  have "digits i = digits j \<and> '']'' @ x = '']'' @ y"
  proof (rule split_at_stop [where P = "\<lambda>c. c \<noteq> CHR '']''"])
    show "\<forall>c\<in>set (digits i). c \<noteq> CHR '']''" using digits_no_bracket [of i] by auto
    show "\<forall>c\<in>set (digits j). c \<noteq> CHR '']''" using digits_no_bracket [of j] by auto
    show "'']'' @ x = [] \<or> \<not> hd ('']'' @ x) \<noteq> CHR '']''" by simp
    show "'']'' @ y = [] \<or> \<not> hd ('']'' @ y) \<noteq> CHR '']''" by simp
    show "digits i @ '']'' @ x = digits j @ '']'' @ y" by (rule assms)
  qed
  then show ?thesis using digits_inj by simp
qed

lemma tail_str_inj:
  "list_all plain_step p \<Longrightarrow> list_all plain_step q \<Longrightarrow> tail_str p = tail_str q \<Longrightarrow> p = q"
proof (induction p arbitrary: q)
  case Nil
  then show ?case
    by (cases q) (simp_all add: tail_str_def seg_nonempty)
next
  case (Cons s p)
  show ?case
  proof (cases q)
    case Nil
    then show ?thesis using Cons.prems(3) by (simp add: tail_str_def seg_nonempty)
  next
    case q: (Cons t q')
    have pp: "list_all plain_step p" and pq: "list_all plain_step q'"
      using Cons.prems(1,2) q by simp_all
    have eq: "seg s @ tail_str p = seg t @ tail_str q'"
      using Cons.prems(3) q by (simp add: tail_str_Cons)
    show ?thesis
    proof (cases s)
      case ks: (Key k1)
      show ?thesis
      proof (cases t)
        case kt: (Key k2)
        have "plain_key k1" "plain_key k2"
          using Cons.prems(1,2) q ks kt by simp_all
        moreover have "k1 @ tail_str p = k2 @ tail_str q'" using eq ks kt by simp
        ultimately have "k1 = k2 \<and> tail_str p = tail_str q'"
          by (rule key_tail_inj)
        then show ?thesis using Cons.IH [OF pp pq] q ks kt by simp
      next
        case (Idx j)
        then show ?thesis using eq ks by simp
      qed
    next
      case xs: (Idx i)
      show ?thesis
      proof (cases t)
        case (Key k2)
        then show ?thesis using eq xs by simp
      next
        case it: (Idx j)
        have "digits i @ '']'' @ tail_str p = digits j @ '']'' @ tail_str q'"
          using eq xs it by simp
        then have "i = j \<and> tail_str p = tail_str q'" by (rule idx_tail_inj)
        then show ?thesis using Cons.IH [OF pp pq] q xs it by simp
      qed
    qed
  qed
qed

lemma extend_path_nonempty: "prefix \<noteq> [] \<Longrightarrow> extend_path prefix s = prefix @ seg s"
  by (cases s) simp_all

lemma render_nonempty: "prefix \<noteq> [] \<Longrightarrow> render prefix p = prefix @ tail_str p"
proof (induction p arbitrary: prefix)
  case Nil
  then show ?case by (simp add: render_def tail_str_def)
next
  case (Cons s p)
  have "render prefix (s # p) = render (prefix @ seg s) p"
    using Cons.prems by (simp add: render_Cons extend_path_nonempty)
  also have "\<dots> = (prefix @ seg s) @ tail_str p"
    using Cons.prems by (intro Cons.IH) simp
  finally show ?case by (simp add: tail_str_Cons)
qed

lemma render_root: "list_all plain_step p \<Longrightarrow> render [] p = root_str p"
proof (cases p)
  case Nil
  then show ?thesis by (simp add: render_def)
next
  case (Cons s q)
  assume pl: "list_all plain_step p"
  show ?thesis
  proof (cases s)
    case (Key k)
    then have "k \<noteq> []" using pl Cons by (simp add: plain_key_def)
    then show ?thesis using Cons Key by (simp add: render_Cons render_nonempty)
  next
    case (Idx i)
    then show ?thesis using Cons by (simp add: render_Cons render_nonempty)
  qed
qed

lemma root_str_inj:
  assumes p: "list_all plain_step p" and q: "list_all plain_step q"
    and eq: "root_str p = root_str q"
  shows "p = q"
proof (cases p)
  case pn: Nil
  show ?thesis
  proof (cases q)
    case Nil
    then show ?thesis using pn by simp
  next
    case (Cons t q')
    then show ?thesis using pn eq q by (cases t) (auto simp add: plain_key_def)
  qed
next
  case pc: (Cons s p')
  show ?thesis
  proof (cases q)
    case Nil
    then show ?thesis using pc eq p by (cases s) (auto simp add: plain_key_def)
  next
    case qc: (Cons t q')
    have pp: "list_all plain_step p'" and pq: "list_all plain_step q'"
      using p q pc qc by simp_all
    show ?thesis
    proof (cases s)
      case ks: (Key k1)
      then have k1: "plain_key k1" using p pc by simp
      show ?thesis
      proof (cases t)
        case kt: (Key k2)
        then have "plain_key k2" using q qc by simp
        moreover have "k1 @ tail_str p' = k2 @ tail_str q'" using eq pc qc ks kt by simp
        ultimately have "k1 = k2 \<and> tail_str p' = tail_str q'"
          using k1 by (intro key_tail_inj)
        then show ?thesis using tail_str_inj [OF pp pq] pc qc ks kt by simp
      next
        case (Idx j)
        then have "hd k1 = CHR ''[''" using eq pc qc ks k1
          by (cases k1) (simp_all add: plain_key_def)
        then show ?thesis using k1 by (cases k1) (simp_all add: plain_key_def)
      qed
    next
      case xs: (Idx i)
      show ?thesis
      proof (cases t)
        case (Key k2)
        then have k2: "plain_key k2" using q qc by simp
        have "hd k2 = CHR ''[''" using eq pc qc xs Key k2
          by (cases k2) (simp_all add: plain_key_def)
        then show ?thesis using k2 by (cases k2) (simp_all add: plain_key_def)
      next
        case it: (Idx j)
        have "tail_str p = tail_str q" using eq pc qc xs it by (simp add: tail_str_Cons)
        then show ?thesis by (rule tail_str_inj [OF p q])
      qed
    qed
  qed
qed

lemma render_inj:
  assumes p: "list_all plain_step p" and q: "list_all plain_step q"
    and eq: "render prefix p = render prefix q"
  shows "p = q"
proof (cases "prefix = []")
  case True
  then have "root_str p = root_str q" using eq p q by (simp add: render_root)
  then show ?thesis by (rule root_str_inj [OF p q])
next
  case False
  then have "tail_str p = tail_str q" using eq by (simp add: render_nonempty)
  then show ?thesis by (rule tail_str_inj [OF p q])
qed

lemma leaves_plain:
  "plain_keys v \<Longrightarrow> \<forall>l\<in>set (leaves v). list_all plain_step (fst l)"
  "plain_items kvs \<Longrightarrow> \<forall>l\<in>set (leaves_dict kvs). list_all plain_step (fst l)"
  "plain_elems vs \<Longrightarrow> \<forall>l\<in>set (leaves_list i vs). list_all plain_step (fst l)"
  by (induction v and kvs and i vs rule: leaves_leaves_dict_leaves_list.induct) auto

lemma leaves_dict_head:
  "l \<in> set (leaves_dict kvs) \<Longrightarrow> \<exists>k q. k \<in> fst ` set kvs \<and> fst l = Key k # q"
proof (induction kvs)
  case Nil
  then show ?case by simp
next
  case (Cons kv kvs)
  obtain k v where kv: "kv = (k, v)" by (cases kv)
  from Cons.prems kv have
    "l \<in> set (map (\<lambda>(p, s). (Key k # p, s)) (leaves v)) \<or> l \<in> set (leaves_dict kvs)"
    by simp
  then show ?case
  proof (elim disjE)
    assume "l \<in> set (map (\<lambda>(p, s). (Key k # p, s)) (leaves v))"
    then obtain p where "fst l = Key k # p" by auto
    then show ?thesis using kv by (intro exI [of _ k] exI [of _ p]) simp
  next
    assume "l \<in> set (leaves_dict kvs)"
    then obtain k' q where "k' \<in> fst ` set kvs" "fst l = Key k' # q"
      using Cons.IH by blast
    then show ?thesis by (intro exI [of _ k'] exI [of _ q]) simp
  qed
qed

lemma leaves_list_head:
  "l \<in> set (leaves_list i vs) \<Longrightarrow> \<exists>j q. i \<le> j \<and> fst l = Idx j # q"
proof (induction vs arbitrary: i)
  case Nil
  then show ?case by simp
next
  case (Cons v vs)
  from Cons.prems have
    "l \<in> set (map (\<lambda>(p, s). (Idx i # p, s)) (leaves v)) \<or> l \<in> set (leaves_list (Suc i) vs)"
    by simp
  then show ?case
  proof (elim disjE)
    assume "l \<in> set (map (\<lambda>(p, s). (Idx i # p, s)) (leaves v))"
    then obtain p where "fst l = Idx i # p" by auto
    then show ?thesis by (intro exI [of _ i] exI [of _ p]) simp
  next
    assume "l \<in> set (leaves_list (Suc i) vs)"
    then obtain j q where "Suc i \<le> j" "fst l = Idx j # q"
      using Cons.IH by blast
    then show ?thesis by (intro exI [of _ j] exI [of _ q]) simp
  qed
qed

lemma distinct_map_cons_step:
  "distinct (map fst ls) \<Longrightarrow> distinct (map fst (map (\<lambda>(p, s). (c # p, s)) ls))"
  by (induction ls) (auto simp add: image_iff)

lemma leaves_distinct:
  "wf_value v \<Longrightarrow> distinct (map fst (leaves v))"
  "distinct (map fst kvs) \<Longrightarrow> wf_items kvs \<Longrightarrow> distinct (map fst (leaves_dict kvs))"
  "wf_elems vs \<Longrightarrow> distinct (map fst (leaves_list i vs))"
proof (induction v and kvs and i vs rule: leaves_leaves_dict_leaves_list.induct)
  case (5 k v kvs)
  have a: "distinct (map fst (map (\<lambda>(p, s). (Key k # p, s)) (leaves v)))"
    using 5 by (intro distinct_map_cons_step) simp
  have b: "distinct (map fst (leaves_dict kvs))"
    using 5 by simp
  have "fst x \<noteq> fst y"
    if x: "x \<in> set (map (\<lambda>(p, s). (Key k # p, s)) (leaves v))"
      and y: "y \<in> set (leaves_dict kvs)"
    for x y
  proof -
    obtain k' q where "k' \<in> fst ` set kvs" "fst y = Key k' # q"
      using leaves_dict_head [OF y] by blast
    moreover have "k \<notin> fst ` set kvs" using "5.prems"(1) by simp
    moreover obtain p where "fst x = Key k # p" using x by auto
    ultimately show ?thesis by auto
  qed
  then have c: "set (map fst (map (\<lambda>(p, s). (Key k # p, s)) (leaves v)))
      \<inter> set (map fst (leaves_dict kvs)) = {}"
    by (simp only: set_map) blast
  have "map fst (leaves_dict ((k, v) # kvs))
      = map fst (map (\<lambda>(p, s). (Key k # p, s)) (leaves v)) @ map fst (leaves_dict kvs)"
    by (simp del: map_map)
  then show ?case using a b c by (simp only: distinct_append simp_thms)
next
  case (7 i v vs)
  have a: "distinct (map fst (map (\<lambda>(p, s). (Idx i # p, s)) (leaves v)))"
    using 7 by (intro distinct_map_cons_step) simp
  have b: "distinct (map fst (leaves_list (Suc i) vs))"
    using 7 by simp
  have "fst x \<noteq> fst y"
    if x: "x \<in> set (map (\<lambda>(p, s). (Idx i # p, s)) (leaves v))"
      and y: "y \<in> set (leaves_list (Suc i) vs)"
    for x y
  proof -
    obtain j q where "Suc i \<le> j" "fst y = Idx j # q"
      using leaves_list_head [OF y] by blast
    moreover obtain p where "fst x = Idx i # p" using x by auto
    ultimately show ?thesis by auto
  qed
  then have c: "set (map fst (map (\<lambda>(p, s). (Idx i # p, s)) (leaves v)))
      \<inter> set (map fst (leaves_list (Suc i) vs)) = {}"
    by (simp only: set_map) blast
  have "map fst (leaves_list i (v # vs))
      = map fst (map (\<lambda>(p, s). (Idx i # p, s)) (leaves v)) @ map fst (leaves_list (Suc i) vs)"
    by (simp del: map_map)
  then show ?case using a b c by (simp only: distinct_append simp_thms)
qed simp_all




section \<open>Properties of the classifier and the normalizer\<close>

lemma py_or_fields:
  "py_or (dict_get d a) (dict_get d b)
     = (case truthy_field d a of
          Some t \<Rightarrow> t
        | None \<Rightarrow> (case map_of d b of None \<Rightarrow> PNone | Some v \<Rightarrow> v))"
  by (simp add: py_or_def dict_get_def truthy_field_def split: option.splits)

lemma truthy_field_truthy: "truthy_field d k = Some t \<Longrightarrow> py_truthy t"
  by (simp add: truthy_field_def split: option.splits if_splits)

lemma guess_item_type_dict:
  "guess_item_type fr (PDict d) = type_label fr (chosen_type d)"
proof (cases "truthy_field d ''@type''")
  case (Some t)
  then have "py_truthy t" by (rule truthy_field_truthy)
  then show ?thesis using Some
    by (cases t) (simp_all add: guess_item_type_def py_or_fields chosen_type_def type_label_def)
next
  case None
  show ?thesis
  proof (cases "map_of d ''type''")
    case n: None
    then show ?thesis using None
      by (simp add: guess_item_type_def py_or_fields chosen_type_def type_label_def
          truthy_field_def)
  next
    case (Some v)
    then show ?thesis using None
      by (cases v)
        (simp_all add: guess_item_type_def py_or_fields chosen_type_def type_label_def
          truthy_field_def)
  qed
qed

text \<open>
  C4, as amended: \<open>guess_item_type\<close> returns, for a mapping, the label of its \<^verbatim>\<open>@type\<close>
  value when that value is present and truthy, and otherwise of its \<^verbatim>\<open>type\<close> value when
  that is present and truthy: the comma-joined strings of the elements, in order and
  with repetitions, for a list, the string of the value otherwise; it returns the empty
  string when neither field holds a truthy value and when the item is not a mapping.
  \<^verbatim>\<open>{"@type": ["Product", "Offer"]}\<close> gives \<^verbatim>\<open>Product,Offer\<close>.
\<close>

theorem guess_item_type_label:
  "guess_item_type fr item
     = (case item of PDict d \<Rightarrow> type_label fr (chosen_type d) | _ \<Rightarrow> [])
   \<and> guess_item_type fr (PDict [(''@type'', PList [PStr ''Product'', PStr ''Offer''])])
       = ''Product,Offer''
   \<and> guess_item_type fr (PDict [(''type'', PList [PStr ''A'', PStr ''A''])]) = ''A,A''
   \<and> guess_item_type fr (PDict []) = []
   \<and> guess_item_type fr (PStr s) = []
   \<and> guess_item_type fr (PList vs) = []"
proof -
  have "guess_item_type fr item
      = (case item of PDict d \<Rightarrow> type_label fr (chosen_type d) | _ \<Rightarrow> [])"
    by (cases item) (simp_all add: guess_item_type_dict, simp_all add: guess_item_type_def)
  moreover have "guess_item_type fr (PDict [(''@type'', PList [PStr ''Product'', PStr ''Offer''])])
       = ''Product,Offer''"
    by (simp add: guess_item_type_def py_or_def dict_get_def)
  moreover have "guess_item_type fr (PDict [(''type'', PList [PStr ''A'', PStr ''A''])]) = ''A,A''"
    by (simp add: guess_item_type_def py_or_def dict_get_def)
  moreover have "guess_item_type fr (PDict []) = []"
    by (simp add: guess_item_type_def py_or_def dict_get_def)
  moreover have "guess_item_type fr (PStr s) = []" "guess_item_type fr (PList vs) = []"
    by (simp_all add: guess_item_type_def)
  ultimately show ?thesis by simp
qed

theorem guess_item_type_label_witness:
  "guess_item_type (\<lambda>x. ''0.5'') (PDict [(''@type'', PStr []), (''type'', PStr ''Thing'')])
     = type_label (\<lambda>x. ''0.5'') (chosen_type [(''@type'', PStr []), (''type'', PStr ''Thing'')])
   \<and> chosen_type [(''@type'', PStr []), (''type'', PStr ''Thing'')] = Some (PStr ''Thing'')
   \<and> type_label (\<lambda>x. ''0.5'') (Some (PStr ''Thing'')) = ''Thing''"
  using guess_item_type_label [of "\<lambda>x. ''0.5''" "PDict [(''@type'', PStr []), (''type'', PStr ''Thing'')]"]
  by (simp add: chosen_type_def truthy_field_def type_label_def)

text \<open>
  C4 as the specification states it fails for a field that is present and falsy:
  \<^verbatim>\<open>{"@type": 0}\<close> holds the scalar 0 under \<^verbatim>\<open>@type\<close>, whose string is \<^verbatim>\<open>0\<close>, and the
  label is empty; \<^verbatim>\<open>{"@type": [], "type": "Thing"}\<close> has \<^verbatim>\<open>@type\<close> present, and the label
  comes from \<^verbatim>\<open>type\<close>.
\<close>

theorem guess_item_type_counterexample:
  "map_of [(''@type'', PInt 0)] ''@type'' = Some (PInt 0)
   \<and> is_scalar (PInt 0)
   \<and> py_str (\<lambda>x. ''0.5'') (PInt 0) = ''0''
   \<and> guess_item_type (\<lambda>x. ''0.5'') (PDict [(''@type'', PInt 0)]) = []
   \<and> guess_item_type (\<lambda>x. ''0.5'') (PDict [(''@type'', PInt 0)]) \<noteq> py_str (\<lambda>x. ''0.5'') (PInt 0)
   \<and> guess_item_type (\<lambda>x. ''0.5'') (PDict [(''@type'', PList []), (''type'', PStr ''Thing'')])
       = ''Thing''"
proof -
  have "str_int 0 = ''0''" by code_simp
  then show ?thesis
    by (simp add: guess_item_type_def py_or_def dict_get_def is_scalar_def)
qed

lemma normalize_value:
  "(case py_or (dict_get e k) (PList []) of PList vs \<Rightarrow> vs | v \<Rightarrow> [v])
     = expected_items (map_of e k)"
proof (cases "map_of e k")
  case None
  then show ?thesis by (simp add: py_or_def dict_get_def expected_items_def)
next
  case (Some v)
  then show ?thesis
    by (cases v) (simp_all add: py_or_def dict_get_def expected_items_def)
qed

text \<open>
  C5: for every raw mapping, \<open>normalize_items\<close> returns a mapping with exactly the keys
  \<^verbatim>\<open>json-ld\<close>, \<^verbatim>\<open>microdata\<close> and \<^verbatim>\<open>rdfa\<close>, each with the raw value if that is a list, the
  one-element list of the raw value if that is truthy and no list, and the empty list if
  the key is missing or its value falsy; no other key of the raw mapping is kept.
  \<^verbatim>\<open>{"json-ld": {"@type": "X"}}\<close> gives the one item under \<^verbatim>\<open>json-ld\<close> and two empty lists.
\<close>

theorem normalize_items_shape:
  "normalize_items e
     = [(''json-ld'', expected_items (map_of e ''json-ld'')),
        (''microdata'', expected_items (map_of e ''microdata'')),
        (''rdfa'', expected_items (map_of e ''rdfa''))]
   \<and> map fst (normalize_items e) = [''json-ld'', ''microdata'', ''rdfa'']
   \<and> normalize_items [(''json-ld'', PDict [(''@type'', PStr ''X'')])]
       = [(''json-ld'', [PDict [(''@type'', PStr ''X'')]]), (''microdata'', []), (''rdfa'', [])]"
proof -
  have a: "normalize_items e
     = [(''json-ld'', expected_items (map_of e ''json-ld'')),
        (''microdata'', expected_items (map_of e ''microdata'')),
        (''rdfa'', expected_items (map_of e ''rdfa''))]" for e
    by (simp add: normalize_items_def normalize_value)
  have b: "normalize_items [(''json-ld'', PDict [(''@type'', PStr ''X'')])]
       = [(''json-ld'', [PDict [(''@type'', PStr ''X'')]]), (''microdata'', []), (''rdfa'', [])]"
    by (simp add: a expected_items_def)
  show ?thesis using a [of e] b by simp
qed

theorem normalize_items_shape_witness:
  "normalize_items [(''opengraph'', PList [PInt 1]), (''rdfa'', PStr []), (''microdata'', PList [PInt 2, PInt 3])]
     = [(''json-ld'', []), (''microdata'', [PInt 2, PInt 3]), (''rdfa'', [])]"
  using normalize_items_shape [of "[(''opengraph'', PList [PInt 1]), (''rdfa'', PStr []), (''microdata'', PList [PInt 2, PInt 3])]"]
  by (simp add: expected_items_def)

section \<open>Properties of the batch loop\<close>

lemma loop_body_fields:
  "all_rows (loop_body E timeout u s) = all_rows s @ rows_of E timeout u"
  "per_url_rows (loop_body E timeout u s) = per_url_rows s @ summaries_of E timeout u"
  "requested (loop_body E timeout u s) = requested s @ [u]"
  by (simp_all add: loop_body_def rows_of_def summaries_of_def error_row_def split: sum.splits)

lemma run_loop_fields:
  "all_rows (run_loop E timeout us s) = all_rows s @ concat (map (rows_of E timeout) us)"
  "per_url_rows (run_loop E timeout us s)
     = per_url_rows s @ concat (map (summaries_of E timeout) us)"
  "requested (run_loop E timeout us s) = requested s @ us"
  by (induction us arbitrary: s) (simp_all add: loop_body_fields)

lemma example_env_bad:
  "extract_structured_data example_env ''bad'' 25 = Inl (Error ''timed out'')"
  by (simp add: extract_structured_data_def fetch_html_def example_env_def)

lemma example_env_good:
  "u \<noteq> ''bad'' \<Longrightarrow> extract_structured_data example_env u 25
     = Inr \<lparr>result_url = u, result_json = ''{}'',
            result_flat = [\<lparr>property = ''@type'', value = ''X'', url = u, syntax = ''json-ld'',
                            item_index = PInt 0, item_type = ''X''\<rparr>]\<rparr>"
  by (simp add: extract_structured_data_def fetch_html_def example_env_def safe_json_def
      normalize_items_def py_or_def dict_get_def guess_item_type_def)

text \<open>
  C3: when processing the URL \<open>u\<close> fails with the exception \<open>e\<close>, the batch over
  \<open>us1 @ u # us2\<close> appends for \<open>u\<close> exactly one row, with the input URL, empty syntax,
  item index and item type, the property \<^verbatim>\<open>ERROR\<close> and the text of \<open>e\<close> as value; the
  rows before and after it are the rows of \<open>us1\<close> and of \<open>us2\<close>, which together are the
  rows of the batch without \<open>u\<close>; the summaries are those of the batch without \<open>u\<close>; and
  every URL of the list is requested, the ones after \<open>u\<close> included.
\<close>

theorem run_loop_isolates_failure:
  assumes "extract_structured_data E u timeout = Inl e"
  shows "all_rows (run_loop E timeout (us1 @ u # us2) initial_state)
           = all_rows (run_loop E timeout us1 initial_state)
             @ [\<lparr>property = ''ERROR'', value = str_error e, url = u, syntax = [],
                 item_index = PStr [], item_type = []\<rparr>]
             @ all_rows (run_loop E timeout us2 initial_state)
         \<and> all_rows (run_loop E timeout (us1 @ us2) initial_state)
           = all_rows (run_loop E timeout us1 initial_state)
             @ all_rows (run_loop E timeout us2 initial_state)
         \<and> per_url_rows (run_loop E timeout (us1 @ u # us2) initial_state)
           = per_url_rows (run_loop E timeout (us1 @ us2) initial_state)
         \<and> requested (run_loop E timeout (us1 @ u # us2) initial_state) = us1 @ u # us2"
proof -
  have r: "rows_of E timeout u = [error_row u e]"
    using assms by (simp add: rows_of_def)
  have s: "summaries_of E timeout u = []"
    using assms by (simp add: summaries_of_def)
  show ?thesis
    by (simp add: run_loop_fields r s initial_state_def error_row_def)
qed

theorem run_loop_isolates_failure_witness:
  "extract_structured_data example_env ''bad'' 25 = Inl (Error ''timed out'')
   \<and> all_rows (run_loop example_env 25 [''a'', ''bad'', ''c''] initial_state)
       = [\<lparr>property = ''@type'', value = ''X'', url = ''a'', syntax = ''json-ld'',
            item_index = PInt 0, item_type = ''X''\<rparr>,
          \<lparr>property = ''ERROR'', value = ''timed out'', url = ''bad'', syntax = [],
            item_index = PStr [], item_type = []\<rparr>,
          \<lparr>property = ''@type'', value = ''X'', url = ''c'', syntax = ''json-ld'',
            item_index = PInt 0, item_type = ''X''\<rparr>]
   \<and> per_url_rows (run_loop example_env 25 [''a'', ''bad'', ''c''] initial_state)
       = [\<lparr>summary_url = ''a'', structured_data_json = ''{}''\<rparr>,
          \<lparr>summary_url = ''c'', structured_data_json = ''{}''\<rparr>]
   \<and> requested (run_loop example_env 25 [''a'', ''bad'', ''c''] initial_state)
       = [''a'', ''bad'', ''c'']"
proof -
  have a: "all_rows (run_loop example_env 25 [''a''] initial_state)
      = [\<lparr>property = ''@type'', value = ''X'', url = ''a'', syntax = ''json-ld'',
            item_index = PInt 0, item_type = ''X''\<rparr>]"
    by (simp add: loop_body_def example_env_good initial_state_def)
  have c: "all_rows (run_loop example_env 25 [''c''] initial_state)
      = [\<lparr>property = ''@type'', value = ''X'', url = ''c'', syntax = ''json-ld'',
            item_index = PInt 0, item_type = ''X''\<rparr>]"
    by (simp add: loop_body_def example_env_good initial_state_def)
  have ac: "per_url_rows (run_loop example_env 25 ([''a''] @ [''c'']) initial_state)
      = [\<lparr>summary_url = ''a'', structured_data_json = ''{}''\<rparr>,
         \<lparr>summary_url = ''c'', structured_data_json = ''{}''\<rparr>]"
    by (simp add: loop_body_def example_env_good initial_state_def)
  show ?thesis
    using run_loop_isolates_failure [OF example_env_bad, of "[''a'']" "[''c'']"] a c ac
    by (simp add: example_env_bad)
qed

lemma lines_from_chars:
  "l \<in> set (lines_from cr acc s) \<Longrightarrow> set l \<subseteq> set acc \<union> set s"
proof (induction s arbitrary: cr acc)
  case Nil
  then show ?case by (simp split: if_splits)
next
  case (Cons c s)
  show ?case
  proof (cases "cr \<and> c = CHR 0x0A")
    case True
    then have "l \<in> set (lines_from False acc s)" using Cons.prems by simp
    then have "set l \<subseteq> set acc \<union> set s" by (rule Cons.IH)
    then show ?thesis by auto
  next
    case False
    show ?thesis
    proof (cases "is_linebreak c")
      case True
      then have "l = acc \<or> l \<in> set (lines_from (c = CHR 0x0D) [] s)"
        using Cons.prems False by auto
      then show ?thesis
      proof
        assume "l = acc"
        then show ?thesis by auto
      next
        assume "l \<in> set (lines_from (c = CHR 0x0D) [] s)"
        then have "set l \<subseteq> set [] \<union> set s" by (rule Cons.IH)
        then show ?thesis by auto
      qed
    next
      case nb: False
      then have "l \<in> set (lines_from False (acc @ [c]) s)"
        using Cons.prems False by auto
      then have "set l \<subseteq> set (acc @ [c]) \<union> set s" by (rule Cons.IH)
      then show ?thesis by auto
    qed
  qed
qed

lemma strip_blank: "\<forall>c\<in>set l. is_space c \<Longrightarrow> strip l = []"
proof -
  assume "\<forall>c\<in>set l. is_space c"
  then have "dropWhile is_space l = []" by simp
  then have "rev (dropWhile is_space (rev (dropWhile is_space l))) = []"
    by (simp only: rev.simps dropWhile.simps)
  then show ?thesis by (simp only: strip_def)
qed

lemma blank_input_no_urls:
  assumes "\<forall>c\<in>set urls_input. is_space c"
  shows "filter (\<lambda>u. strip u \<noteq> []) (splitlines urls_input) = []"
proof -
  have "strip l = []" if "l \<in> set (splitlines urls_input)" for l
  proof -
    have "set l \<subseteq> set urls_input"
      using lines_from_chars [of l False "[]" urls_input] that by (simp add: splitlines_def)
    then show ?thesis using assms by (intro strip_blank) auto
  qed
  then show ?thesis by (simp add: filter_empty_conv)
qed

text \<open>
  C9: when the text of the URL field is empty or holds only whitespace (blank lines
  included), the run shows the error \<^verbatim>\<open>No URLs provided\<close> and stops: no URL is
  requested, no table is shown and no file is offered.
\<close>

theorem run_rejects_blank_input:
  assumes "\<forall>c\<in>set urls_input. is_space c"
  shows "run E urls_input timeout
           = \<lparr>shown_error = Some ''No URLs provided'', fetched = [], preview = None,
              download = None, uncaught = None\<rparr>"
  using blank_input_no_urls [OF assms] by (simp add: run_def)

theorem run_rejects_blank_input_witness:
  "list_all is_space [CHR '' '', CHR 0x09, CHR 0x0D, CHR 0x0A, CHR '' '', CHR 0x0A]
   \<and> run example_env [CHR '' '', CHR 0x09, CHR 0x0D, CHR 0x0A, CHR '' '', CHR 0x0A] 25
       = \<lparr>shown_error = Some ''No URLs provided'', fetched = [], preview = None,
          download = None, uncaught = None\<rparr>
   \<and> run example_env [] 25
       = \<lparr>shown_error = Some ''No URLs provided'', fetched = [], preview = None,
          download = None, uncaught = None\<rparr>"
proof -
  have h: "\<forall>c\<in>set [CHR '' '', CHR 0x09, CHR 0x0D, CHR 0x0A, CHR '' '', CHR 0x0A]. is_space c"
    by (simp add: is_space_def)
  have e: "\<forall>c\<in>set ([] :: string). is_space c" by simp
  show ?thesis
    using h run_rejects_blank_input [OF h, of example_env 25]
      run_rejects_blank_input [OF e, of example_env 25]
    by (simp add: list_all_iff)
qed

text \<open>
  The guard lets every other text through: with one bad and one good URL, surrounded by
  blanks and an empty line, both are requested and the file is offered.
\<close>

lemma run_example:
  "run example_env [CHR '' '', CHR ''b'', CHR ''a'', CHR ''d'', CHR 0x0D, CHR 0x0A, CHR 0x0A, CHR ''c'', CHR '' ''] 25
     = \<lparr>shown_error = None, fetched = [''bad'', ''c''],
        preview = Some
          [\<lparr>property = ''ERROR'', value = ''timed out'', url = ''bad'', syntax = [],
             item_index = PStr [], item_type = []\<rparr>,
           \<lparr>property = ''@type'', value = ''X'', url = ''c'', syntax = ''json-ld'',
             item_index = PInt 0, item_type = ''X''\<rparr>],
        download = Some ''xlsx'', uncaught = None\<rparr>"
proof -
  have sp: "\<not> is_space CHR ''b''" "\<not> is_space CHR ''a''" "\<not> is_space CHR ''d''"
    "\<not> is_space CHR ''c''" "is_space CHR '' ''"
    by (simp_all add: is_space_def)
  have lb: "\<not> is_linebreak CHR ''b''" "\<not> is_linebreak CHR ''a''" "\<not> is_linebreak CHR ''d''"
    "\<not> is_linebreak CHR ''c''" "\<not> is_linebreak CHR '' ''" "is_linebreak CHR 0x0D"
    "is_linebreak CHR 0x0A"
    by (simp_all add: is_linebreak_def)
  have urls: "map strip (filter (\<lambda>u. strip u \<noteq> [])
      (splitlines [CHR '' '', CHR ''b'', CHR ''a'', CHR ''d'', CHR 0x0D, CHR 0x0A, CHR 0x0A, CHR ''c'', CHR '' '']))
      = [''bad'', ''c'']"
    by (simp add: splitlines_def strip_def sp lb)
  have c: "extract_structured_data example_env ''c'' 25
     = Inr \<lparr>result_url = ''c'', result_json = ''{}'',
            result_flat = [\<lparr>property = ''@type'', value = ''X'', url = ''c'', syntax = ''json-ld'',
                            item_index = PInt 0, item_type = ''X''\<rparr>]\<rparr>"
    by (rule example_env_good) simp
  show ?thesis
    unfolding run_def urls
    by (simp add: loop_body_def example_env_bad c initial_state_def)
      (simp add: example_env_def)
qed

end
